theory Spec2Isabelle
  imports Complex_Main "HOL-Library.Sublist"
begin

section \<open>Strings and cell values of the dashboard\<close>

text \<open>
  The dashboard (\<^verbatim>\<open>assets/js/app.js\<close>) works on spreadsheet rows whose cells are
  strings, numbers, booleans or empty. A JavaScript string is modelled as a \<^typ>\<open>string\<close>
  whose characters are the code units 0 to 255 (ASCII and Latin-1); text outside that
  range is not covered by the model.
\<close>

subsection \<open>String primitives\<close>

definition is_ws :: "char \<Rightarrow> bool" where
  \<comment> \<open>white space and line terminators removed by \<^verbatim>\<open>String.prototype.trim\<close>:
      TAB, LF, VT, FF, CR, SPACE and NO-BREAK SPACE\<close>
  "is_ws c = (of_char c \<in> {9, 10, 11, 12, 13, 32, 160 :: nat})"

definition trim :: "string \<Rightarrow> string" where
  "trim s = rev (dropWhile is_ws (rev (dropWhile is_ws s)))"

definition lower_char :: "char \<Rightarrow> char" where
  "lower_char c =
     (let n = (of_char c :: nat)
      in if (65 \<le> n \<and> n \<le> 90) \<or> (192 \<le> n \<and> n \<le> 214) \<or> (216 \<le> n \<and> n \<le> 222)
         then char_of (n + 32) else c)"

definition toLowerCase :: "string \<Rightarrow> string" where
  "toLowerCase s = map lower_char s"

fun str_includes :: "string \<Rightarrow> string \<Rightarrow> bool" where
  \<comment> \<open>\<^verbatim>\<open>hay.includes(needle)\<close>\<close>
  "str_includes [] needle = (needle = [])"
| "str_includes (c # cs) needle = (prefix needle (c # cs) \<or> str_includes cs needle)"

subsection \<open>Numbers\<close>

text \<open>
  A JavaScript number is an IEEE 754 double: a finite value, which is a rational number,
  or one of NaN, +Infinity, -Infinity. The two zeros are not told apart. Every double is
  a \<open>Fin\<close>; the functions below are defined on all rationals, so what is proved of them
  holds of the doubles.
\<close>

datatype jsnum = Fin rat | NaN | PInf | NInf

fun isFinite :: "jsnum \<Rightarrow> bool" where
  \<comment> \<open>\<^verbatim>\<open>Number.isFinite\<close>\<close>
  "isFinite (Fin x) = True"
| "isFinite _ = False"

function int_digits :: "int \<Rightarrow> int \<Rightarrow> nat" where
  \<comment> \<open>the number of base-\<open>b\<close> digits of a positive integer\<close>
  "int_digits b n = (if n \<le> 0 \<or> b \<le> 1 then 0 else Suc (int_digits b (n div b)))"
  by pat_completeness auto
termination
  by (relation "measure (\<lambda>(b, n). nat n)") (auto simp: nat_less_iff intro: int_div_less_self)

definition ilog :: "int \<Rightarrow> rat \<Rightarrow> int" where
  \<comment> \<open>for \<open>0 < a\<close> and \<open>1 < b\<close>, the \<open>e\<close> with \<open>b ^ e \<le> a < b ^ (e + 1)\<close>\<close>
  "ilog b a =
     (let e = int (int_digits b (fst (quotient_of a))) - int (int_digits b (snd (quotient_of a)))
      in if of_int b powi e \<le> a then e else e - 1)"

definition round_half_even :: "rat \<Rightarrow> int" where
  "round_half_even m =
     (let f = \<lfloor>m\<rfloor>; d = m - of_int f
      in if d < 1 / 2 then f else if 1 / 2 < d then f + 1 else if even f then f else f + 1)"

definition round_double :: "rat \<Rightarrow> jsnum" where
  \<comment> \<open>the double nearest to an exact value (round to nearest, ties to even): 53 significant
      bits, least exponent -1022, overflow to an infinity\<close>
  "round_double x =
     (if x = 0 then Fin 0
      else let a = \<bar>x\<bar>; e = max (ilog 2 a) (- 1022); u = 2 powi (e - 52);
               v = of_int (round_half_even (a / u)) * u
           in if 2 powi 1024 \<le> v then (if x < 0 then NInf else PInf)
              else Fin (if x < 0 then - v else v))"

fun js_add :: "jsnum \<Rightarrow> jsnum \<Rightarrow> jsnum" where
  \<comment> \<open>\<^verbatim>\<open>a + b\<close> on numbers\<close>
  "js_add (Fin a) (Fin b) = round_double (a + b)"
| "js_add NaN _ = NaN"
| "js_add _ NaN = NaN"
| "js_add PInf NInf = NaN"
| "js_add NInf PInf = NaN"
| "js_add PInf _ = PInf"
| "js_add _ PInf = PInf"
| "js_add NInf _ = NInf"
| "js_add _ NInf = NInf"

fun js_div_const :: "jsnum \<Rightarrow> rat \<Rightarrow> jsnum" where
  \<comment> \<open>\<^verbatim>\<open>a / c\<close> for a positive constant \<open>c\<close> (60 and 3600 in the source)\<close>
  "js_div_const (Fin a) c = round_double (a / c)"
| "js_div_const n c = n"

fun js_neg :: "jsnum \<Rightarrow> jsnum" where
  \<comment> \<open>\<^verbatim>\<open>a * -1\<close>\<close>
  "js_neg (Fin a) = Fin (- a)"
| "js_neg NaN = NaN"
| "js_neg PInf = NInf"
| "js_neg NInf = PInf"

subsection \<open>Number to string\<close>

text \<open>
  \<^verbatim>\<open>String(n)\<close> for a number follows ECMAScript's \<^verbatim>\<open>Number::toString\<close>: the
  shortest decimal digit string \<open>s\<close> of length \<open>k\<close> and the exponent \<open>n\<close> such that
  \<open>s * 10 ^ (n - k)\<close> rounds to the number, then one of five layouts.
\<close>

definition digit_char :: "int \<Rightarrow> char" where
  "digit_char d = char_of (48 + nat d)"

function dec_int :: "int \<Rightarrow> string" where
  \<comment> \<open>the decimal digits of a non-negative integer\<close>
  "dec_int n = (if n < 10 then [digit_char n] else dec_int (n div 10) @ [digit_char (n mod 10)])"
  by pat_completeness auto
termination
  by (relation "measure nat") (auto simp: nat_less_iff intro: int_div_less_self)

definition digit_candidates :: "rat \<Rightarrow> int \<Rightarrow> nat \<Rightarrow> (int \<times> int) list" where
  \<comment> \<open>the two \<open>k\<close>-digit candidates \<open>(s, n)\<close> around \<open>x\<close>, the closer one first\<close>
  "digit_candidates x n0 k =
     (let t = x / 10 powi (n0 - int k); lo = \<lfloor>t\<rfloor>; hi = lo + 1;
          c_lo = (lo, n0);
          c_hi = (if hi = 10 ^ k then (10 ^ (k - 1), n0 + 1) else (hi, n0))
      in if t - of_int lo < of_int hi - t \<or> (t - of_int lo = of_int hi - t \<and> even lo)
         then [c_lo, c_hi] else [c_hi, c_lo])"

definition digits_in_range :: "nat \<Rightarrow> int \<times> int \<Rightarrow> bool" where
  "digits_in_range k c = (10 ^ (k - 1) \<le> fst c \<and> fst c < 10 ^ k)"

definition digits_ok :: "rat \<Rightarrow> nat \<Rightarrow> int \<times> int \<Rightarrow> bool" where
  "digits_ok x k c =
     (digits_in_range k c \<and> round_double (of_int (fst c) * 10 powi (snd c - int k)) = Fin x)"

fun find_digits :: "rat \<Rightarrow> int \<Rightarrow> nat \<Rightarrow> nat \<Rightarrow> int \<times> nat \<times> int" where
  \<comment> \<open>\<open>find_digits x n0 fuel k\<close> tries the lengths \<open>k, k + 1, ..., k + fuel\<close>; at the last
      length the rounding is not checked any more (17 digits always suffice for a double)\<close>
  "find_digits x n0 0 k =
     (case filter (digits_in_range k) (digit_candidates x n0 k) of
        c # _ \<Rightarrow> (fst c, k, snd c)
      | [] \<Rightarrow> (10 ^ (k - 1), k, n0))"
| "find_digits x n0 (Suc fuel) k =
     (case filter (digits_ok x k) (digit_candidates x n0 k) of
        c # _ \<Rightarrow> (fst c, k, snd c)
      | [] \<Rightarrow> find_digits x n0 fuel (Suc k))"

definition format_digits :: "int \<Rightarrow> nat \<Rightarrow> int \<Rightarrow> string" where
  "format_digits s k n =
     (let ds = dec_int s; ex = dec_int \<bar>n - 1\<bar>; sg = (if 0 < n - 1 then ''+'' else ''-'')
      in if int k \<le> n \<and> n \<le> 21 then ds @ replicate (nat (n - int k)) CHR ''0''
         else if 0 < n \<and> n \<le> 21 then take (nat n) ds @ ''.'' @ drop (nat n) ds
         else if - 6 < n \<and> n \<le> 0 then ''0.'' @ replicate (nat (- n)) CHR ''0'' @ ds
         else if k = 1 then ds @ ''e'' @ sg @ ex
         else take 1 ds @ ''.'' @ drop 1 ds @ ''e'' @ sg @ ex)"

definition positive_toString :: "rat \<Rightarrow> string" where
  "positive_toString x =
     (case find_digits x (ilog 10 x + 1) 16 1 of (s, k, n) \<Rightarrow> format_digits s k n)"

fun Number_toString :: "jsnum \<Rightarrow> string" where
  "Number_toString NaN = ''NaN''"
| "Number_toString PInf = ''Infinity''"
| "Number_toString NInf = ''-Infinity''"
| "Number_toString (Fin x) =
     (if x = 0 then ''0''
      else if x < 0 then ''-'' @ positive_toString (- x)
      else positive_toString x)"

subsection \<open>String to number\<close>

definition is_digit :: "char \<Rightarrow> bool" where
  \<comment> \<open>the class \<^verbatim>\<open>\d\<close>\<close>
  "is_digit c = (48 \<le> (of_char c :: nat) \<and> (of_char c :: nat) \<le> 57)"

definition digits_value :: "string \<Rightarrow> int" where
  "digits_value ds = foldl (\<lambda>a c. 10 * a + (of_char c - 48)) 0 ds"

definition unsigned_decimal :: "string \<Rightarrow> rat option" where
  \<comment> \<open>\<^verbatim>\<open>digits\<close>, \<^verbatim>\<open>digits.\<close>, \<^verbatim>\<open>digits.digits\<close> or \<^verbatim>\<open>.digits\<close>\<close>
  "unsigned_decimal s =
     (let ip = takeWhile is_digit s; r = dropWhile is_digit s
      in case r of
           [] \<Rightarrow> (if ip = [] then None else Some (of_int (digits_value ip)))
         | c # fp \<Rightarrow>
             (if c = CHR ''.'' \<and> list_all is_digit fp \<and> (ip \<noteq> [] \<or> fp \<noteq> [])
              then Some (of_int (digits_value ip) + of_int (digits_value fp) / 10 ^ length fp)
              else None))"

definition Number_decimal :: "string \<Rightarrow> jsnum" where
  \<comment> \<open>\<^verbatim>\<open>Number(s)\<close> for a string \<open>s\<close> made of the characters \<^verbatim>\<open>0-9 . + -\<close> only, the
      strings the source applies it to: the empty string is 0, a signed decimal is its
      nearest double, anything else is NaN\<close>
  "Number_decimal s =
     (case s of
        [] \<Rightarrow> Fin 0
      | c # cs \<Rightarrow>
          (if c = CHR ''-''
           then (case unsigned_decimal cs of None \<Rightarrow> NaN | Some x \<Rightarrow> js_neg (round_double x))
           else if c = CHR ''+''
           then (case unsigned_decimal cs of None \<Rightarrow> NaN | Some x \<Rightarrow> round_double x)
           else (case unsigned_decimal s of None \<Rightarrow> NaN | Some x \<Rightarrow> round_double x)))"

subsection \<open>Cells and rows\<close>

datatype jsval = JUndef | JNull | JBool bool | JNum jsnum | JStr string

type_synonym row = "(string \<times> jsval) list"

definition get :: "row \<Rightarrow> string \<Rightarrow> jsval" where
  \<comment> \<open>\<^verbatim>\<open>r[key]\<close>: a row is a plain object, its own properties in key order\<close>
  "get r k = (case map_of r k of None \<Rightarrow> JUndef | Some v \<Rightarrow> v)"

fun String_js :: "jsval \<Rightarrow> string" where
  \<comment> \<open>\<^verbatim>\<open>String(v)\<close>\<close>
  "String_js JUndef = ''undefined''"
| "String_js JNull = ''null''"
| "String_js (JBool b) = (if b then ''true'' else ''false'')"
| "String_js (JNum n) = Number_toString n"
| "String_js (JStr s) = s"

definition is_nullish :: "jsval \<Rightarrow> bool" where
  "is_nullish v = (v = JNull \<or> v = JUndef)"

definition normText :: "jsval \<Rightarrow> string" where
  "normText v = (if is_nullish v then [] else trim (String_js v))"

definition truthy :: "jsval \<Rightarrow> bool" where
  "truthy v =
     (if v = JBool True then True
      else if v = JNum (Fin 1) then True
      else let s = toLowerCase (normText v) in s = ''yes'' \<or> s = ''true'' \<or> s = ''1'')"

section \<open>Record normalizer\<close>

text \<open>
  \<^verbatim>\<open>parseWorkbook\<close> maps every raw row to an object that keeps the row's columns and
  adds derived fields (\<^verbatim>\<open>__assessed\<close>, \<^verbatim>\<open>__siteStatus\<close>, ...); the derived fields
  are the record \<open>norm\<close>. The numeric coercion of the columns in \<^verbatim>\<open>NUM_FIELDS\<close> and the
  field \<^verbatim>\<open>__qcIssueCount\<close> are left out: they overwrite or read only columns of
  \<^verbatim>\<open>NUM_FIELDS\<close>, none of which is read by the fields below.
\<close>

record qc_rule =
  col :: string
  label :: string
  help_text :: string

definition QC_RULES :: "qc_rule list" where
  "QC_RULES =
    [\<lparr>col = ''QC - Missing assessment date'',
      label = ''Missing assessment date (status filled but date blank)'',
      help_text = ''Fill Date of phone assessment when Phone call status is set.''\<rparr>,
     \<lparr>col = ''QC - Current phone length'',
      label = ''Current Shawish phone length not 8 digits'',
      help_text = ''Fix phone numbers (often missing leading 0) or confirm number is correct.''\<rparr>,
     \<lparr>col = ''QC - Phone status/details mismatch'',
      label = ''Phone call status/details mismatch or invalid status value'',
      help_text = ''Ensure status is valid; if status is not Answer, No response details should be filled.''\<rparr>,
     \<lparr>col = ''QC - Living status/new focal point mismatch'',
      label = ''Living status/new focal point mismatch or invalid value'',
      help_text = ''If living=No, new focal point name & phone must be filled. If living=Yes, new focal point fields should be blank.''\<rparr>,
     \<lparr>col = ''QC - New focal point missing assessment date'',
      label = ''New focal point: status filled but assessment date blank'',
      help_text = ''Fill Date of phone assessment with New Focal point when New FP status is set.''\<rparr>,
     \<lparr>col = ''QC - New FP status/details mismatch'',
      label = ''New focal point: status/details mismatch or invalid status value'',
      help_text = ''Ensure New FP status is valid; if status is not Answer, No response details should be filled.''\<rparr>,
     \<lparr>col = ''QC - Record status mismatch'',
      label = ''Record status mismatch or invalid value'',
      help_text = ''Record status should be filled when phone call status is filled (Finish/Need Follow-up).''\<rparr>,
     \<lparr>col = ''QC - Totals mismatch'',
      label = ''Totals mismatch (structures/HH/IND vs components)'',
      help_text = ''Check totals (structures/HH/IND) match sum of components (Tents/Shelters/Prefab/etc).''\<rparr>,
     \<lparr>col = ''QC - HH size outlier (>10 ind/hh or ind<hh)'',
      label = ''Household size outlier (>10 ind/HH or ind < HH)'',
      help_text = ''Review Total households vs Total individuals for possible data entry errors.''\<rparr>,
     \<lparr>col = ''QC - Latrines missing (HH>0 & latrines 0/blank)'',
      label = ''Latrines missing (HH>0 but latrines = 0/blank)'',
      help_text = ''Fill Number of Latrines when households exist (HH>0).''\<rparr>,
     \<lparr>col = ''QC - Latrines > HH'',
      label = ''Latrines greater than households'',
      help_text = ''Review latrine count relative to households.''\<rparr>,
     \<lparr>col = ''QC - High population (>500 ind)'',
      label = ''High population outlier (>500 individuals)'',
      help_text = ''Confirm Total individuals - unusually high compared with most sites.''\<rparr>,
     \<lparr>col = ''QC - Invalid Site Status'',
      label = ''Invalid Site Status'',
      help_text = ''Site Status should be one of: Active / Inactive / Fully Demolished.''\<rparr>,
     \<lparr>col = ''QC - Invalid PCode format'',
      label = ''Invalid PCode format'',
      help_text = ''PCode should follow #####-##-###.''\<rparr>]"

record norm =
  d_assessed :: bool
  d_siteStatus :: string
  d_district :: string
  d_cadaster :: string
  d_phoneStatus :: string
  d_qcAny :: string
  d_qcFlags :: "string list"
  d_search :: string

fun qcFlagsLoop :: "row \<Rightarrow> qc_rule list \<Rightarrow> string list \<Rightarrow> string list" where
  \<comment> \<open>\<^verbatim>\<open>for (const rule of QC_RULES) if (truthy(obj[rule.col])) qcFlags.push(rule.label)\<close>\<close>
  "qcFlagsLoop obj [] qcFlags = qcFlags"
| "qcFlagsLoop obj (rule # rules) qcFlags =
     qcFlagsLoop obj rules (if truthy (get obj (col rule)) then qcFlags @ [label rule] else qcFlags)"

definition em_dash :: string where
  \<comment> \<open>the sentinel of the source, a string of the one character U+2014 (em dash); it lies
      outside the modelled range and is written as its three UTF-8 bytes\<close>
  "em_dash = [char_of (226 :: nat), char_of (128 :: nat), char_of (148 :: nat)]"

definition join :: "string \<Rightarrow> string list \<Rightarrow> string" where
  \<comment> \<open>\<^verbatim>\<open>parts.join(sep)\<close>\<close>
  "join sep parts = (case parts of [] \<Rightarrow> [] | p # ps \<Rightarrow> p @ concat (map (\<lambda>x. sep @ x) ps))"

definition normalize :: "row \<Rightarrow> norm" where
  \<comment> \<open>the callback of \<^verbatim>\<open>rows.map\<close> in \<^verbatim>\<open>parseWorkbook\<close>\<close>
  "normalize obj =
     (let phoneStatus = normText (get obj ''Phone call status'');
          siteStatus = normText (get obj ''Site Status'');
          district = normText (get obj ''District'');
          cadaster = normText (get obj ''Cadaster'');
          assessed = (phoneStatus \<noteq> []);
          siteStatusDisplay =
            (if siteStatus \<noteq> [] then siteStatus
             else if assessed then ''Not recorded'' else ''Not assessed'');
          qcAny = (if normText (get obj ''QC - Any issue'') \<noteq> []
                   then normText (get obj ''QC - Any issue'') else ''No'');
          qcFlags = qcFlagsLoop obj QC_RULES []
      in \<lparr> d_assessed = assessed,
           d_siteStatus = siteStatusDisplay,
           d_district = (if district \<noteq> [] then district else em_dash),
           d_cadaster = (if cadaster \<noteq> [] then cadaster else em_dash),
           d_phoneStatus = (if assessed then phoneStatus else ''Not assessed''),
           d_qcAny = (if qcAny = ''Yes'' then ''Yes'' else ''No''),
           d_qcFlags = qcFlags,
           d_search = toLowerCase (join '' ''
             [normText (get obj ''PCode''), normText (get obj ''PCode Name''),
              normText (get obj ''Local Name''), district, cadaster]) \<rparr>)"

text \<open>The flag test in the words of the specification, and with the trimming that the code does.\<close>

definition truthy_texts :: "string set" where
  "truthy_texts = {''yes'', ''true'', ''1''}"

definition stated_flag :: "jsval \<Rightarrow> bool" where
  \<comment> \<open>boolean true, the number 1, or a text equal to yes, true or 1 apart from case\<close>
  "stated_flag v =
     (case v of JBool b \<Rightarrow> b | JNum n \<Rightarrow> n = Fin 1
      | JStr s \<Rightarrow> toLowerCase s \<in> truthy_texts | _ \<Rightarrow> False)"

definition flagged :: "jsval \<Rightarrow> bool" where
  \<comment> \<open>the same, the text being trimmed first\<close>
  "flagged v =
     (case v of JBool b \<Rightarrow> b | JNum n \<Rightarrow> n = Fin 1
      | JStr s \<Rightarrow> toLowerCase (trim s) \<in> truthy_texts | _ \<Rightarrow> False)"

section \<open>CSV export\<close>










section \<open>Coordinate inference\<close>

subsection \<open>The degrees-minutes-seconds pattern\<close>

text \<open>
  \<^verbatim>\<open>raw.match(/(\d+(?:\.\d+)?)\D+(\d+(?:\.\d+)?)\D+(\d+(?:\.\d+)?)(?:\D*([NSEW]))?/i)\<close>
  is a backtracking match. Each part of the pattern maps the text still to be read to the
  list of its possible matches, in the order in which the matcher tries them (a greedy
  repetition tries the longest run first); a match is a captured text and the rest. The
  first element of the list of complete matches is the match the engine returns, and the
  engine starts at the leftmost position that has one.
\<close>

definition greedy :: "(char \<Rightarrow> bool) \<Rightarrow> nat \<Rightarrow> string \<Rightarrow> (string \<times> string) list" where
  \<comment> \<open>a character class repeated at least \<open>least\<close> times\<close>
  "greedy P least s =
     map (\<lambda>n. (take n s, drop n s)) (rev [least ..< Suc (length (takeWhile P s))])"

definition frac_opt :: "string \<Rightarrow> (string \<times> string) list" where
  \<comment> \<open>\<^verbatim>\<open>(?:\.\d+)?\<close>\<close>
  "frac_opt s =
     (case s of
        [] \<Rightarrow> []
      | c # cs \<Rightarrow> if c = CHR ''.'' then map (\<lambda>(fs, r). (c # fs, r)) (greedy is_digit 1 cs) else [])
     @ [([], s)]"

definition number_group :: "string \<Rightarrow> (string \<times> string) list" where
  \<comment> \<open>\<^verbatim>\<open>(\d+(?:\.\d+)?)\<close>\<close>
  "number_group s =
     concat (map (\<lambda>(ds, r). map (\<lambda>(fs, r'). (ds @ fs, r')) (frac_opt r)) (greedy is_digit 1 s))"

definition non_digits :: "string \<Rightarrow> string list" where
  \<comment> \<open>\<^verbatim>\<open>\D+\<close>; only the rest of the text is kept\<close>
  "non_digits s = map snd (greedy (\<lambda>c. \<not> is_digit c) 1 s)"

definition hemi_opt :: "string \<Rightarrow> char option list" where
  \<comment> \<open>\<^verbatim>\<open>(?:\D*([NSEW]))?\<close> with the flag \<^verbatim>\<open>i\<close>; nothing follows it in the pattern\<close>
  "hemi_opt s =
     concat (map (\<lambda>(u, r). case r of [] \<Rightarrow> []
                             | c # cs \<Rightarrow> if lower_char c \<in> set ''nsew'' then [Some c] else [])
                 (greedy (\<lambda>c. \<not> is_digit c) 0 s))
     @ [None]"

definition dms_at :: "string \<Rightarrow> (string \<times> string \<times> string \<times> char option) list" where
  "dms_at s =
     concat (map (\<lambda>(d1, r1).
       concat (map (\<lambda>r2.
         concat (map (\<lambda>(d2, r3).
           concat (map (\<lambda>r4.
             concat (map (\<lambda>(d3, r5).
               map (\<lambda>h. (d1, d2, d3, h)) (hemi_opt r5))
               (number_group r4)))
             (non_digits r3)))
           (number_group r2)))
         (non_digits r1)))
       (number_group s))"

fun dms_match :: "string \<Rightarrow> (string \<times> string \<times> string \<times> char option) option" where
  "dms_match [] = None"
| "dms_match (c # cs) = (case dms_at (c # cs) of m # _ \<Rightarrow> Some m | [] \<Rightarrow> dms_match cs)"

subsection \<open>parseCoordinate\<close>

definition upper_char :: "char \<Rightarrow> char" where
  \<comment> \<open>\<^verbatim>\<open>toUpperCase\<close> on the one letter the pattern captures\<close>
  "upper_char c =
     (let n = (of_char c :: nat) in if 97 \<le> n \<and> n \<le> 122 then char_of (n - 32) else c)"

fun strip_plus :: "string \<Rightarrow> string" where
  \<comment> \<open>\<^verbatim>\<open>.replace(/(\+)(?=.)/g, "")\<close>: every plus sign that is not the last character goes\<close>
  "strip_plus [] = []"
| "strip_plus [c] = [c]"
| "strip_plus (c # d # cs) = (if c = CHR ''+'' then strip_plus (d # cs) else c # strip_plus (d # cs))"

definition clean :: "string \<Rightarrow> string" where
  \<comment> \<open>\<^verbatim>\<open>raw.replace(/,/g, ".").replace(/[^0-9.+\-]/g, "").replace(/(\+)(?=.)/g, "")\<close>\<close>
  "clean raw =
     strip_plus
       (filter (\<lambda>c. is_digit c \<or> c = CHR ''.'' \<or> c = CHR ''+'' \<or> c = CHR ''-'')
          (map (\<lambda>c. if c = CHR '','' then CHR ''.'' else c) raw))"

definition loose_decimal :: "string \<Rightarrow> jsnum" where
  "loose_decimal raw = (let n = Number_decimal (clean raw) in if isFinite n then n else NaN)"

definition parseCoordinate :: "jsval \<Rightarrow> jsnum" where
  "parseCoordinate v =
     (if is_nullish v \<or> v = JStr [] then NaN
      else case v of
        JNum n \<Rightarrow> (if isFinite n then n else NaN)
      | _ \<Rightarrow>
        (let raw = trim (String_js v)
         in if raw = [] then NaN
            else case dms_match raw of
              None \<Rightarrow> loose_decimal raw
            | Some (d1, d2, d3, h) \<Rightarrow>
                (let deg = Number_decimal d1; min = Number_decimal d2; sec = Number_decimal d3
                 in if isFinite deg \<and> isFinite min \<and> isFinite sec
                    then (let out = js_add (js_add deg (js_div_const min 60)) (js_div_const sec 3600);
                              hemi = (case h of None \<Rightarrow> [] | Some c \<Rightarrow> [upper_char c])
                          in if hemi = ''S'' \<or> hemi = ''W'' then js_neg out else out)
                    else loose_decimal raw)))"

subsection \<open>Scoring and selecting columns\<close>

text \<open>
  A score is \<^verbatim>\<open>ok / valid\<close> for two counters of at most 1200. It is kept as the exact
  fraction: two such fractions that differ are more than \<open>10\<^sup>-\<^sup>7\<close> apart, far more than
  the rounding of a double, and equal fractions round to the same double, so comparing,
  subtracting and sorting the doubles gives what the fractions give; the same holds for
  the thresholds \<^verbatim>\<open>0.25\<close> and \<^verbatim>\<open>0.65\<close>, kept as the fractions 1/4 and 13/20.
  The bounds of a band are doubles: the
  literals \<^verbatim>\<open>32.0\<close> and \<^verbatim>\<open>34.0\<close> are exact, \<^verbatim>\<open>35.9\<close> and \<^verbatim>\<open>37.9\<close> denote
  the nearest doubles, which lie just below; no double lies between either and the
  decimal it stands for, so on doubles the comparison with the literal and the
  comparison with the decimal agree.
\<close>

definition lit_0_25 :: rat where
  "lit_0_25 = 1 / 4"

definition lit_0_65 :: rat where
  "lit_0_65 = 13 / 20"

definition lit_35_9 :: rat where
  "lit_35_9 = 5052475831956275 / 140737488355328"

definition lit_37_9 :: rat where
  "lit_37_9 = 5333950808666931 / 140737488355328"

fun scoreLoop :: "row list \<Rightarrow> string \<Rightarrow> rat \<Rightarrow> rat \<Rightarrow> nat \<Rightarrow> nat \<Rightarrow> nat \<times> nat" where
  \<comment> \<open>the \<^verbatim>\<open>for\<close> loop of \<^verbatim>\<open>scoreKeyInRange\<close> over the sampled rows\<close>
  "scoreLoop [] key mn mx ok valid = (ok, valid)"
| "scoreLoop (r # rs) key mn mx ok valid =
     (case parseCoordinate (get r key) of
        Fin v \<Rightarrow> scoreLoop rs key mn mx (if mn \<le> v \<and> v \<le> mx then ok + 1 else ok) (valid + 1)
      | _ \<Rightarrow> scoreLoop rs key mn mx ok valid)"

definition scoreKeyInRange :: "row list \<Rightarrow> string \<Rightarrow> rat \<Rightarrow> rat \<Rightarrow> rat" where
  "scoreKeyInRange rows key mn mx =
     (let sampleN = min 1200 (length rows);
          (ok, valid) = scoreLoop (take sampleN rows) key mn mx 0 0
      in if valid = 0 then 0 else of_nat ok / of_nat valid)"

fun re_p_code :: "string \<Rightarrow> bool" where
  \<comment> \<open>\<^verbatim>\<open>/p\s*code/i.test(k)\<close>\<close>
  "re_p_code [] = False"
| "re_p_code (c # cs) =
     ((lower_char c = CHR ''p'' \<and> prefix ''code'' (toLowerCase (dropWhile is_ws cs))) \<or> re_p_code cs)"

definition ci_test :: "string \<Rightarrow> string \<Rightarrow> bool" where
  \<comment> \<open>\<^verbatim>\<open>/pat/i.test(k)\<close> for a pattern of lower-case letters\<close>
  "ci_test pat k = str_includes (toLowerCase k) pat"

definition inferPcodeKey :: "string list \<Rightarrow> string" where
  "inferPcodeKey keys =
     (case find (\<lambda>k. toLowerCase (trim k) = ''pcode'') keys of
        Some exact \<Rightarrow> exact
      | None \<Rightarrow>
          (case find (\<lambda>k. re_p_code k \<or> ci_test ''pcode'' k) keys of
             Some fuzzy \<Rightarrow> if fuzzy \<noteq> [] then fuzzy else ''PCode''
           | None \<Rightarrow> ''PCode''))"

record scored_key =
  key :: string
  latScore :: rat
  lngScore :: rat

record meta =
  pcodeKey :: string
  latKey :: "string option"
  lngKey :: "string option"

definition sort_desc :: "('a \<Rightarrow> rat) \<Rightarrow> 'a list \<Rightarrow> 'a list" where
  \<comment> \<open>\<^verbatim>\<open>[...xs].sort((a, b) => f(b) - f(a))\<close>: a stable sort, greatest score first\<close>
  "sort_desc f xs = sort_key (\<lambda>x. - f x) xs"

definition js_or :: "string option \<Rightarrow> string option \<Rightarrow> string option" where
  \<comment> \<open>\<^verbatim>\<open>a || b\<close> on strings and null: the empty string is falsy\<close>
  "js_or a b = (case a of None \<Rightarrow> b | Some k \<Rightarrow> if k \<noteq> [] then Some k else b)"

definition pickBestNamed :: "scored_key list \<Rightarrow> string list \<Rightarrow> (scored_key \<Rightarrow> rat) \<Rightarrow> string option" where
  "pickBestNamed scored arr scoreProp =
     (if arr = [] then None
      else let ranked = sort_desc snd
                 (map (\<lambda>k. (k, case find (\<lambda>x. key x = k) scored of
                                  None \<Rightarrow> 0 | Some x \<Rightarrow> scoreProp x)) arr)
           in case ranked of
                [] \<Rightarrow> None
              | (k, s) # _ \<Rightarrow> if lit_0_25 \<le> s then Some k else None)"

definition nameLat :: "string list \<Rightarrow> string list" where
  "nameLat keys =
     filter (\<lambda>k. (ci_test ''lat'' k \<or> ci_test ''latitude'' k) \<and> \<not> ci_test ''latrine'' k) keys"

definition nameLng :: "string list \<Rightarrow> string list" where
  "nameLng keys =
     filter (\<lambda>k. ci_test ''lon'' k \<or> ci_test ''lng'' k \<or> ci_test ''longitude'' k) keys"

definition scoreOne :: "row list \<Rightarrow> string \<Rightarrow> scored_key" where
  \<comment> \<open>the callback of \<^verbatim>\<open>keys.map\<close> that builds \<^verbatim>\<open>scored\<close>\<close>
  "scoreOne rows k =
     \<lparr> key = k,
       latScore = scoreKeyInRange rows k 32 lit_35_9,
       lngScore = scoreKeyInRange rows k 34 lit_37_9 \<rparr>"

definition scoredKeys :: "row list \<Rightarrow> string list \<Rightarrow> scored_key list" where
  "scoredKeys rows keys = map (scoreOne rows) keys"

definition inferLatLngKeys :: "row list \<Rightarrow> meta" where
  "inferLatLngKeys rows =
     (case rows of
        [] \<Rightarrow> \<lparr> pcodeKey = ''PCode'', latKey = None, lngKey = None \<rparr>
      | r0 # _ \<Rightarrow>
          (let keys = map fst r0;
               scored = scoredKeys rows keys;
               bestLat = find (\<lambda>x. lit_0_65 \<le> latScore x) (sort_desc latScore scored);
               bestLng = find (\<lambda>x. lit_0_65 \<le> lngScore x \<and>
                                     (case bestLat of None \<Rightarrow> True | Some b \<Rightarrow> key x \<noteq> key b))
                              (sort_desc lngScore scored)
           in \<lparr> pcodeKey = inferPcodeKey keys,
                latKey = js_or (pickBestNamed scored (nameLat keys) latScore)
                           (js_or (map_option key bestLat) None),
                lngKey = js_or (pickBestNamed scored (nameLng keys) lngScore)
                           (js_or (map_option key bestLng) None) \<rparr>))"

subsection \<open>The coordinate index\<close>

record coords =
  mp :: "string \<rightharpoonup> rat \<times> rat"
  found :: meta
  mapped :: nat
  total :: nat

definition nullish_or :: "jsval \<Rightarrow> jsval \<Rightarrow> jsval" where
  \<comment> \<open>\<^verbatim>\<open>a ?? b\<close>\<close>
  "nullish_or a b = (if is_nullish a then b else a)"

definition pcodeOf :: "string \<Rightarrow> row \<Rightarrow> string" where
  \<comment> \<open>\<^verbatim>\<open>String(r?.[meta.pcodeKey] ?? r?.["PCode"] ?? "").trim()\<close>\<close>
  "pcodeOf pk r = trim (String_js (nullish_or (nullish_or (get r pk) (get r ''PCode'')) (JStr [])))"

fun coordsLoop ::
  "string \<Rightarrow> string \<Rightarrow> string \<Rightarrow> row list \<Rightarrow> (string \<rightharpoonup> rat \<times> rat) \<Rightarrow> nat
     \<Rightarrow> (string \<rightharpoonup> rat \<times> rat) \<times> nat" where
  \<comment> \<open>the \<^verbatim>\<open>for (const r of rows)\<close> loop of \<^verbatim>\<open>buildCoordsMapFromRows\<close>\<close>
  "coordsLoop pk lk gk [] m n = (m, n)"
| "coordsLoop pk lk gk (r # rs) m n =
     (let p = pcodeOf pk r
      in if p = [] then coordsLoop pk lk gk rs m n
         else case (parseCoordinate (get r lk), parseCoordinate (get r gk)) of
                (Fin lat, Fin lng) \<Rightarrow> coordsLoop pk lk gk rs (m(p \<mapsto> (lat, lng))) (n + 1)
              | _ \<Rightarrow> coordsLoop pk lk gk rs m n)"

definition buildCoordsMapFromRows :: "row list \<Rightarrow> coords" where
  "buildCoordsMapFromRows rows =
     (let meta = inferLatLngKeys rows;
          none = \<lparr> mp = Map.empty, found = meta, mapped = 0, total = length rows \<rparr>
      in case (latKey meta, lngKey meta) of
           (Some lk, Some gk) \<Rightarrow>
             if lk = [] \<or> gk = [] then none
             else (let (m, n) = coordsLoop (pcodeKey meta) lk gk rows Map.empty 0
                   in \<lparr> mp = m, found = meta, mapped = n, total = length rows \<rparr>)
         | _ \<Rightarrow> none)"

subsection \<open>The inference contract in the words of the specification\<close>

definition sampled :: "row list \<Rightarrow> row list" where
  \<comment> \<open>the first min(1200, row count) rows\<close>
  "sampled rows = take (min 1200 (length rows)) rows"

definition parses :: "string \<Rightarrow> row \<Rightarrow> bool" where
  \<comment> \<open>the cell of the column parses to a finite number\<close>
  "parses k r = isFinite (parseCoordinate (get r k))"

definition in_band :: "rat \<Rightarrow> rat \<Rightarrow> string \<Rightarrow> row \<Rightarrow> bool" where
  "in_band mn mx k r =
     (case parseCoordinate (get r k) of Fin v \<Rightarrow> mn \<le> v \<and> v \<le> mx | _ \<Rightarrow> False)"

definition band_fraction :: "row list \<Rightarrow> string \<Rightarrow> rat \<Rightarrow> rat \<Rightarrow> rat" where
  \<comment> \<open>among the sampled rows that parse, the fraction inside the band; 0 when none parses\<close>
  "band_fraction rows k mn mx =
     (let parsed = filter (parses k) (sampled rows)
      in if parsed = [] then 0
         else of_nat (length (filter (in_band mn mx k) parsed)) / of_nat (length parsed))"

definition best_by :: "('a \<Rightarrow> rat) \<Rightarrow> 'a list \<Rightarrow> 'a option" where
  \<comment> \<open>the best-scoring element, the first one among equals\<close>
  "best_by f xs = find (\<lambda>x. \<forall>y \<in> set xs. f y \<le> f x) xs"

fun first_max :: "('a \<Rightarrow> rat) \<Rightarrow> 'a list \<Rightarrow> 'a option" where
  \<comment> \<open>the same by recursion, for the proofs\<close>
  "first_max f [] = None"
| "first_max f (x # xs) =
     (case first_max f xs of None \<Rightarrow> Some x | Some b \<Rightarrow> if f b \<le> f x then Some x else Some b)"

definition named_best :: "(string \<Rightarrow> rat) \<Rightarrow> string list \<Rightarrow> string option" where
  \<comment> \<open>the best name-matched candidate when it scores at least 0.25\<close>
  "named_best score named =
     (case best_by score named of None \<Rightarrow> None
      | Some k \<Rightarrow> if lit_0_25 \<le> score k then Some k else None)"

definition overall_best :: "(string \<Rightarrow> rat) \<Rightarrow> string list \<Rightarrow> string option" where
  \<comment> \<open>the best-scoring column when it scores at least 0.65\<close>
  "overall_best score keys =
     (case best_by score keys of None \<Rightarrow> None
      | Some k \<Rightarrow> if lit_0_65 \<le> score k then Some k else None)"

definition choose_axis :: "(string \<Rightarrow> rat) \<Rightarrow> string list \<Rightarrow> string list \<Rightarrow> string option" where
  \<comment> \<open>the name-matched choice, else the overall choice unless its name is empty, else none\<close>
  "choose_axis score named keys =
     (case named_best score named of
        Some k \<Rightarrow> Some k
      | None \<Rightarrow>
          (case overall_best score keys of None \<Rightarrow> None
           | Some k \<Rightarrow> if k \<noteq> [] then Some k else None))"

definition latBand :: "row list \<Rightarrow> string \<Rightarrow> rat" where
  "latBand rows k = band_fraction rows k 32 lit_35_9"

definition lngBand :: "row list \<Rightarrow> string \<Rightarrow> rat" where
  "lngBand rows k = band_fraction rows k 34 lit_37_9"





section \<open>Filter engine\<close>

text \<open>
  The global \<^verbatim>\<open>filters\<close> object is the record \<open>filters\<close>, passed explicitly.
\<close>

record filters =
  f_q :: string
  f_district :: string
  f_cadaster :: string
  f_siteStatus :: string
  f_phoneStatus :: string
  f_qc :: string

definition defaultFilters :: filters where
  "defaultFilters = \<lparr> f_q = '''', f_district = ''All'', f_cadaster = ''All'',
     f_siteStatus = ''All'', f_phoneStatus = ''All'', f_qc = ''All'' \<rparr>"

definition keepRow :: "filters \<Rightarrow> string \<Rightarrow> norm \<Rightarrow> bool" where
  \<comment> \<open>the callback of \<^verbatim>\<open>rows.filter\<close> in \<^verbatim>\<open>applyFilters\<close>, one early return per line\<close>
  "keepRow f q r =
     (if f_district f \<noteq> ''All'' \<and> d_district r \<noteq> f_district f then False
      else if f_cadaster f \<noteq> ''All'' \<and> d_cadaster r \<noteq> f_cadaster f then False
      else if f_siteStatus f \<noteq> ''All'' \<and> d_siteStatus r \<noteq> f_siteStatus f then False
      else if f_phoneStatus f \<noteq> ''All'' \<and> d_phoneStatus r \<noteq> f_phoneStatus f then False
      else if f_qc f = ''Any issue'' \<and> d_qcAny r \<noteq> ''Yes'' then False
      else if f_qc f = ''No issues'' \<and> d_qcAny r \<noteq> ''No'' then False
      else if q \<noteq> [] \<and> \<not> str_includes (d_search r) q then False
      else True)"

definition applyFilters :: "filters \<Rightarrow> norm list \<Rightarrow> norm list" where
  "applyFilters f rows = (let q = toLowerCase (trim (f_q f)) in filter (keepRow f q) rows)"

text \<open>The filter contract in the words of the specification.\<close>

definition matches_criterion :: "string \<Rightarrow> string \<Rightarrow> bool" where
  "matches_criterion crit v = (crit = ''All'' \<or> v = crit)"

definition is_substring :: "string \<Rightarrow> string \<Rightarrow> bool" where
  "is_substring needle hay = (\<exists>pre suf. hay = pre @ needle @ suf)"

definition passes :: "filters \<Rightarrow> norm \<Rightarrow> bool" where
  "passes f r =
     (matches_criterion (f_district f) (d_district r) \<and>
      matches_criterion (f_cadaster f) (d_cadaster r) \<and>
      matches_criterion (f_siteStatus f) (d_siteStatus r) \<and>
      matches_criterion (f_phoneStatus f) (d_phoneStatus r) \<and>
      (f_qc f = ''Any issue'' \<longrightarrow> d_qcAny r = ''Yes'') \<and>
      (f_qc f = ''No issues'' \<longrightarrow> d_qcAny r = ''No'') \<and>
      (toLowerCase (trim (f_q f)) = [] \<or> is_substring (toLowerCase (trim (f_q f))) (d_search r)))"

section \<open>Shareable link\<close>

subsection \<open>URLSearchParams\<close>



















subsection \<open>The filter controls\<close>

















section \<open>Evaluation of characters and text\<close>

declare dec_int.simps [simp del] int_digits.simps [simp del]

lemma char_eq_char_of: "(c = char_of n) = (take_bit 8 n = of_char c)"
  for n :: "'a :: linordered_euclidean_semiring_bit_operations"
  using char_of_eq_iff [of n c] by auto

lemmas char_evals = char_of_eq_iff char_eq_char_of

lemmas text_evals = normText_def is_nullish_def get_def trim_def is_ws_def toLowerCase_def
  lower_char_def char_evals

lemma includes_iff: "str_includes hay needle = is_substring needle hay"
proof (induction hay)
  case Nil
  show ?case by (auto simp: is_substring_def)
next
  case (Cons c cs)
  show ?case
  proof
    assume "str_includes (c # cs) needle"
    then consider "prefix needle (c # cs)" | "str_includes cs needle" by auto
    then show "is_substring needle (c # cs)"
    proof cases
      case 1
      then obtain suf where "c # cs = needle @ suf" by (auto simp: prefix_def)
      then have "c # cs = [] @ needle @ suf" by simp
      then show ?thesis unfolding is_substring_def by blast
    next
      case 2
      with Cons obtain pre suf where "cs = pre @ needle @ suf"
        by (auto simp: is_substring_def)
      then have "c # cs = (c # pre) @ needle @ suf" by simp
      then show ?thesis unfolding is_substring_def by blast
    qed
  next
    assume "is_substring needle (c # cs)"
    then obtain pre suf where eq: "c # cs = pre @ needle @ suf"
      by (auto simp: is_substring_def)
    show "str_includes (c # cs) needle"
    proof (cases pre)
      case Nil
      with eq have "prefix needle (c # cs)" by (simp add: prefix_def)
      then show ?thesis by simp
    next
      case (Cons p ps)
      with eq have "cs = ps @ needle @ suf" by simp
      then have "is_substring needle cs" unfolding is_substring_def by blast
      with Cons.IH show ?thesis by simp
    qed
  qed
qed

section \<open>Properties of the coordinate inference\<close>

lemma in_band_parses: "in_band mn mx k r \<Longrightarrow> parses k r"
  by (auto simp: in_band_def parses_def split: jsnum.splits)

lemma scoreLoop_counts:
  "scoreLoop rs k mn mx ok valid =
     (ok + length (filter (in_band mn mx k) rs), valid + length (filter (parses k) rs))"
proof (induction rs arbitrary: ok valid)
  case Nil
  show ?case by simp
next
  case (Cons r rs)
  show ?case
    by (cases "parseCoordinate (get r k)") (simp_all add: Cons.IH in_band_def parses_def)
qed

lemma filter_in_band_parsed:
  "filter (\<lambda>r. parses k r \<and> in_band mn mx k r) rs = filter (in_band mn mx k) rs"
  by (induction rs) (auto dest: in_band_parses)

lemma scoreKeyInRange_fraction: "scoreKeyInRange rows k mn mx = band_fraction rows k mn mx"
  by (simp add: scoreKeyInRange_def band_fraction_def sampled_def scoreLoop_counts
      filter_in_band_parsed Let_def)

lemma band_fraction_range: "0 \<le> band_fraction rows k mn mx \<and> band_fraction rows k mn mx \<le> 1"
proof -
  let ?p = "filter (parses k) (sampled rows)"
  have "length (filter (in_band mn mx k) ?p) \<le> length ?p" by (rule length_filter_le)
  then have "(of_nat (length (filter (in_band mn mx k) ?p)) :: rat) \<le> of_nat (length ?p)"
    using of_nat_le_iff by blast
  then show ?thesis
    by (auto simp del: filter_filter simp: band_fraction_def Let_def divide_le_eq_1)
qed


lemma find_SomeD: "find P xs = Some x \<Longrightarrow> x \<in> set xs \<and> P x"
  by (induction xs) (simp_all split: if_splits)

lemma first_max_None: "first_max f xs = None \<longleftrightarrow> xs = []"
  by (induction xs) (auto split: option.splits)

lemma best_by_first_max: "best_by f xs = first_max f xs"
proof (induction xs)
  case Nil
  show ?case by (simp add: best_by_def)
next
  case (Cons x xs)
  show ?case
  proof (cases "first_max f xs")
    case None
    then have "xs = []" by (simp add: first_max_None)
    then show ?thesis by (simp add: best_by_def)
  next
    case (Some b)
    with Cons have fb: "find (\<lambda>z. \<forall>y \<in> set xs. f y \<le> f z) xs = Some b"
      by (simp add: best_by_def)
    then have b_in: "b \<in> set xs" and b_max: "\<forall>y \<in> set xs. f y \<le> f b"
      using find_SomeD [OF fb] by auto
    show ?thesis
    proof (cases "f b \<le> f x")
      case True
      then have "\<forall>y \<in> set (x # xs). f y \<le> f x"
        using b_max by force
      then have "best_by f (x # xs) = Some x"
        by (simp add: best_by_def)
      with Some True show ?thesis by simp
    next
      case False
      then have nx: "\<not> (\<forall>y \<in> set (x # xs). f y \<le> f x)"
        using b_in by auto
      have same: "find (\<lambda>z. \<forall>y \<in> set (x # xs). f y \<le> f z) xs
                    = find (\<lambda>z. \<forall>y \<in> set xs. f y \<le> f z) xs"
      proof (rule find_cong [OF refl])
        fix z assume "z \<in> set xs"
        then have "f b \<le> f z \<Longrightarrow> f x \<le> f z"
          using False by linarith
        then show "(\<forall>y \<in> set (x # xs). f y \<le> f z) = (\<forall>y \<in> set xs. f y \<le> f z)"
          using b_in by auto
      qed
      have "best_by f (x # xs) = find (\<lambda>z. \<forall>y \<in> set (x # xs). f y \<le> f z) xs"
        unfolding best_by_def find.simps using nx by (simp only: if_False)
      then have "best_by f (x # xs) = Some b"
        using same fb by simp
      with Some False show ?thesis by simp
    qed
  qed
qed

lemma insort_desc_hd:
  "insort_key (\<lambda>x. - f x) x ys =
     (case ys of [] \<Rightarrow> [x] | y # ys' \<Rightarrow> if f y \<le> f x then x # ys else y # insort_key (\<lambda>x. - f x) x ys')"
  for f :: "'a \<Rightarrow> rat"
  by (cases ys) simp_all

lemma sort_desc_head:
  "(case sort_desc f xs of [] \<Rightarrow> None | b # _ \<Rightarrow> Some b) = first_max f xs"
proof (induction xs)
  case Nil
  show ?case by (simp add: sort_desc_def)
next
  case (Cons x xs)
  then show ?case
    by (cases "sort_key (\<lambda>x. - f x) xs") (auto simp: sort_desc_def split: option.splits)
qed

lemma sort_desc_sorted: "sorted (map (\<lambda>x. - f x) (sort_desc f xs))"
  by (simp add: sort_desc_def)

lemma find_threshold_sorted:
  fixes f :: "'a \<Rightarrow> rat"
  assumes "sorted (map (\<lambda>x. - f x) ys)"
  shows "find (\<lambda>x. t \<le> f x) ys = (case ys of [] \<Rightarrow> None | b # _ \<Rightarrow> if t \<le> f b then Some b else None)"
proof (cases ys)
  case Nil
  then show ?thesis by simp
next
  case (Cons b bs)
  have "\<forall>y \<in> set bs. - f b \<le> - f y"
    using assms Cons by simp
  then have "\<forall>y \<in> set bs. f y \<le> f b"
    by simp
  then have "\<not> t \<le> f b \<Longrightarrow> find (\<lambda>x. t \<le> f x) bs = None"
    by (force simp: find_None_iff)
  with Cons show ?thesis by simp
qed

lemma find_sort_desc:
  "find (\<lambda>x. t \<le> f x) (sort_desc f xs) =
     (case best_by f xs of None \<Rightarrow> None | Some b \<Rightarrow> if t \<le> f b then Some b else None)"
  by (simp add: find_threshold_sorted [OF sort_desc_sorted] best_by_first_max
      sort_desc_head [of f xs, symmetric] split: list.splits)

lemma find_filter_conv: "find (\<lambda>x. P x \<and> Q x) xs = find P (filter Q xs)"
  by (induction xs) simp_all

lemma find_sort_desc_excl:
  "find (\<lambda>x. t \<le> f x \<and> Q x) (sort_desc f xs) =
     (case best_by f (filter Q xs) of None \<Rightarrow> None | Some b \<Rightarrow> if t \<le> f b then Some b else None)"
proof -
  have "find (\<lambda>x. t \<le> f x \<and> Q x) (sort_desc f xs) = find (\<lambda>x. t \<le> f x) (filter Q (sort_desc f xs))"
    by (rule find_filter_conv)
  also have "filter Q (sort_desc f xs) = sort_desc f (filter Q xs)"
    by (simp add: sort_desc_def filter_sort)
  finally show ?thesis by (simp add: find_sort_desc)
qed


lemma first_max_map: "first_max f (map g xs) = map_option g (first_max (\<lambda>x. f (g x)) xs)"
  by (induction xs) (auto split: option.splits)

lemma first_max_cong: "(\<And>x. x \<in> set xs \<Longrightarrow> f x = g x) \<Longrightarrow> first_max f xs = first_max g xs"
proof (induction xs)
  case Nil
  show ?case by simp
next
  case (Cons x xs)
  then have eq: "first_max f xs = first_max g xs" by simp
  have mem: "first_max g xs = Some b \<Longrightarrow> b \<in> set xs" for b
    using find_SomeD [of _ xs b] by (simp add: best_by_first_max [symmetric] best_by_def)
  show ?case
    using Cons.prems mem by (auto simp: eq split: option.splits)
qed

lemma best_by_map: "best_by f (map g xs) = map_option g (best_by (\<lambda>x. f (g x)) xs)"
  by (simp add: best_by_first_max first_max_map)

lemma best_by_cong: "(\<And>x. x \<in> set xs \<Longrightarrow> f x = g x) \<Longrightarrow> best_by f xs = best_by g xs"
  unfolding best_by_first_max by (rule first_max_cong)

lemma scoreOne_sel [simp]:
  "key (scoreOne rows k) = k"
  "latScore (scoreOne rows k) = latBand rows k"
  "lngScore (scoreOne rows k) = lngBand rows k"
  by (simp_all add: scoreOne_def latBand_def lngBand_def scoreKeyInRange_fraction)

lemma find_key_scored:
  "k \<in> set keys \<Longrightarrow> find (\<lambda>x. key x = k) (scoredKeys rows keys) = Some (scoreOne rows k)"
  by (induction keys) (auto simp: scoredKeys_def)

lemma pickBestNamed_named_best:
  assumes sub: "set arr \<subseteq> set keys"
    and sc: "\<And>k. scoreProp (scoreOne rows k) = score k"
  shows "pickBestNamed (scoredKeys rows keys) arr scoreProp = named_best score arr"
proof (cases "arr = []")
  case True
  then show ?thesis by (simp add: pickBestNamed_def named_best_def best_by_def)
next
  case False
  define h where "h = (\<lambda>k. (k, case find (\<lambda>x. key x = k) (scoredKeys rows keys) of
                         None \<Rightarrow> 0 | Some x \<Rightarrow> scoreProp x))"
  have h: "k \<in> set arr \<Longrightarrow> h k = (k, score k)" for k
    using sub by (auto simp: h_def find_key_scored sc)
  have "(case sort_desc snd (map h arr) of [] \<Rightarrow> None | b # _ \<Rightarrow> Some b)
          = map_option h (first_max (\<lambda>k. snd (h k)) arr)"
    by (simp only: sort_desc_head first_max_map)
  also have "first_max (\<lambda>k. snd (h k)) arr = first_max score arr"
    by (rule first_max_cong) (simp add: h)
  finally have hd: "(case sort_desc snd (map h arr) of [] \<Rightarrow> None | b # _ \<Rightarrow> Some b)
          = map_option h (best_by score arr)"
    by (simp add: best_by_first_max)
  obtain b where b: "best_by score arr = Some b"
    using False by (cases "best_by score arr") (auto simp: best_by_first_max first_max_None)
  then have b_in: "b \<in> set arr"
    using find_SomeD [of _ arr b] by (simp add: best_by_def)
  from hd b obtain rest where srt: "sort_desc snd (map h arr) = (b, score b) # rest"
    using h [OF b_in] by (cases "sort_desc snd (map h arr)") auto
  have "pickBestNamed (scoredKeys rows keys) arr scoreProp
          = (case sort_desc snd (map h arr) of [] \<Rightarrow> None
             | (k, s) # _ \<Rightarrow> if lit_0_25 \<le> s then Some k else None)"
    using False by (simp add: pickBestNamed_def Let_def h_def)
  then show ?thesis
    using b srt by (simp add: named_best_def)
qed

lemma best_by_scored:
  assumes "\<And>k. f (scoreOne rows k) = g k"
  shows "best_by f (scoredKeys rows keys) = map_option (scoreOne rows) (best_by g keys)"
  by (simp add: scoredKeys_def best_by_map assms)

lemma bestLat_overall:
  "map_option key (find (\<lambda>x. lit_0_65 \<le> latScore x) (sort_desc latScore (scoredKeys rows keys)))
     = overall_best (latBand rows) keys"
proof -
  have bb: "best_by latScore (scoredKeys rows keys) = map_option (scoreOne rows) (best_by (latBand rows) keys)"
    by (rule best_by_scored) simp
  show ?thesis
    by (cases "best_by (latBand rows) keys") (simp_all add: find_sort_desc bb overall_best_def)
qed

lemma bestLng_overall:
  "map_option key (find (\<lambda>x. lit_0_65 \<le> lngScore x \<and> Q (key x)) (sort_desc lngScore (scoredKeys rows keys)))
     = overall_best (lngBand rows) (filter Q keys)"
proof -
  have flt: "filter (\<lambda>x. Q (key x)) (scoredKeys rows keys) = scoredKeys rows (filter Q keys)"
    by (simp add: scoredKeys_def filter_map comp_def)
  have bb: "best_by lngScore (scoredKeys rows (filter Q keys))
              = map_option (scoreOne rows) (best_by (lngBand rows) (filter Q keys))"
    by (rule best_by_scored) simp
  show ?thesis
    by (cases "best_by (lngBand rows) (filter Q keys)")
       (simp_all add: find_sort_desc_excl flt bb overall_best_def)
qed

lemma nameLat_nonempty: "k \<in> set (nameLat keys) \<Longrightarrow> k \<noteq> []"
  by (auto simp: nameLat_def ci_test_def toLowerCase_def)

lemma nameLng_nonempty: "k \<in> set (nameLng keys) \<Longrightarrow> k \<noteq> []"
  by (auto simp: nameLng_def ci_test_def toLowerCase_def)

lemma named_best_mem: "named_best score arr = Some k \<Longrightarrow> k \<in> set arr"
  using find_SomeD [of _ arr k]
  by (auto simp: named_best_def best_by_def split: option.splits if_splits)

lemma js_or_choose:
  assumes "\<And>k. named_best score arr = Some k \<Longrightarrow> k \<noteq> []"
  shows "js_or (named_best score arr) (js_or (overall_best score keys) None)
           = choose_axis score arr keys"
proof (cases "named_best score arr")
  case None
  then show ?thesis by (simp add: js_or_def choose_axis_def split: option.splits)
next
  case (Some k)
  with assms have "k \<noteq> []" by simp
  with Some show ?thesis by (simp add: js_or_def choose_axis_def)
qed

lemma infer_lat:
  "latKey (inferLatLngKeys (r0 # rs))
     = choose_axis (latBand (r0 # rs)) (nameLat (map fst r0)) (map fst r0)"
proof -
  have sub: "set (nameLat (map fst r0)) \<subseteq> set (map fst r0)"
    by (auto simp: nameLat_def)
  have pk: "pickBestNamed (scoredKeys (r0 # rs) (map fst r0)) (nameLat (map fst r0)) latScore
              = named_best (latBand (r0 # rs)) (nameLat (map fst r0))"
    by (rule pickBestNamed_named_best [OF sub]) simp
  have "latKey (inferLatLngKeys (r0 # rs))
          = js_or (named_best (latBand (r0 # rs)) (nameLat (map fst r0)))
              (js_or (overall_best (latBand (r0 # rs)) (map fst r0)) None)"
    by (simp add: inferLatLngKeys_def Let_def pk bestLat_overall)
  also have "\<dots> = choose_axis (latBand (r0 # rs)) (nameLat (map fst r0)) (map fst r0)"
    by (rule js_or_choose) (blast dest: named_best_mem nameLat_nonempty)
  finally show ?thesis .
qed

lemma infer_lng:
  "lngKey (inferLatLngKeys (r0 # rs))
     = choose_axis (lngBand (r0 # rs)) (nameLng (map fst r0))
         (filter (\<lambda>k. Some k \<noteq> overall_best (latBand (r0 # rs)) (map fst r0)) (map fst r0))"
proof -
  define rows where "rows = r0 # rs"
  define keys where "keys = map fst r0"
  define bestLat where
    "bestLat = find (\<lambda>x. lit_0_65 \<le> latScore x) (sort_desc latScore (scoredKeys rows keys))"
  define Q where "Q = (\<lambda>k. Some k \<noteq> overall_best (latBand rows) keys)"
  have sub: "set (nameLng keys) \<subseteq> set keys"
    by (auto simp: nameLng_def)
  have pk: "pickBestNamed (scoredKeys rows keys) (nameLng keys) lngScore
              = named_best (lngBand rows) (nameLng keys)"
    by (rule pickBestNamed_named_best [OF sub]) simp
  have ov: "map_option key bestLat = overall_best (latBand rows) keys"
    unfolding bestLat_def by (rule bestLat_overall)
  have Qeq: "(\<lambda>x. lit_0_65 \<le> lngScore x \<and> (case bestLat of None \<Rightarrow> True | Some b \<Rightarrow> key x \<noteq> key b))
               = (\<lambda>x. lit_0_65 \<le> lngScore x \<and> Q (key x))"
  proof (cases bestLat)
    case None
    with ov show ?thesis by (simp add: Q_def)
  next
    case (Some a)
    with ov have "overall_best (latBand rows) keys = Some (key a)" by simp
    with Some show ?thesis by (auto simp: Q_def)
  qed
  have "lngKey (inferLatLngKeys rows)
          = js_or (pickBestNamed (scoredKeys rows keys) (nameLng keys) lngScore)
              (js_or (map_option key (find (\<lambda>x. lit_0_65 \<le> lngScore x \<and>
                          (case bestLat of None \<Rightarrow> True | Some b \<Rightarrow> key x \<noteq> key b))
                        (sort_desc lngScore (scoredKeys rows keys)))) None)"
    by (simp add: inferLatLngKeys_def Let_def rows_def keys_def bestLat_def)
  also have "\<dots> = js_or (named_best (lngBand rows) (nameLng keys))
              (js_or (overall_best (lngBand rows) (filter Q keys)) None)"
    by (simp only: Qeq pk bestLng_overall)
  also have "\<dots> = choose_axis (lngBand rows) (nameLng keys) (filter Q keys)"
    by (rule js_or_choose) (blast dest: named_best_mem nameLng_nonempty)
  finally show ?thesis
    by (simp add: rows_def keys_def Q_def)
qed














lemma lit_35_9_literal: "round_double (359 / 10) = Fin lit_35_9"
  unfolding lit_35_9_def by code_simp

lemma lit_37_9_literal: "round_double (379 / 10) = Fin lit_37_9"
  unfolding lit_37_9_def by code_simp

text \<open>
  C2. For every row set and column, the score of the column for a band is the fraction,
  among the first min(1200, row count) rows whose cell parses to a finite number, of the
  rows whose number lies inside the band; it is 0 when no sampled cell parses, and it
  lies between 0 and 1. The latitude score uses the band from \<^verbatim>\<open>32.0\<close> to
  \<^verbatim>\<open>35.9\<close> and the longitude score the band from \<^verbatim>\<open>34.0\<close> to \<^verbatim>\<open>37.9\<close>,
  the bounds being the doubles that the literals denote.
\<close>

theorem score_is_band_fraction:
  "scoreKeyInRange rows k mn mx = band_fraction rows k mn mx
   \<and> (filter (parses k) (sampled rows) = [] \<longrightarrow> scoreKeyInRange rows k mn mx = 0)
   \<and> 0 \<le> scoreKeyInRange rows k mn mx \<and> scoreKeyInRange rows k mn mx \<le> 1
   \<and> latScore (scoreOne rows k) = band_fraction rows k 32 lit_35_9
   \<and> lngScore (scoreOne rows k) = band_fraction rows k 34 lit_37_9
   \<and> round_double (359 / 10) = Fin lit_35_9 \<and> round_double (379 / 10) = Fin lit_37_9"
  using band_fraction_range [of rows k mn mx]
  by (simp add: scoreKeyInRange_fraction scoreOne_def lit_35_9_literal lit_37_9_literal
      band_fraction_def)

theorem score_is_band_fraction_witness:
  "scoreKeyInRange [[(''x'', JNum (Fin 33)), (''y'', JStr [])],
                    [(''x'', JNum (Fin 10)), (''y'', JNull)],
                    [(''x'', JStr []), (''y'', JStr ''-'')]] ''x'' 32 lit_35_9 = 1 / 2
   \<and> filter (parses ''y'') (sampled [[(''x'', JNum (Fin 33)), (''y'', JStr [])],
                    [(''x'', JNum (Fin 10)), (''y'', JNull)],
                    [(''x'', JStr []), (''y'', JStr ''-'')]]) = []
   \<and> scoreKeyInRange [[(''x'', JNum (Fin 33)), (''y'', JStr [])],
                    [(''x'', JNum (Fin 10)), (''y'', JNull)],
                    [(''x'', JStr []), (''y'', JStr ''-'')]] ''y'' 32 lit_35_9 = 0"
proof -
  let ?rows = "[[(''x'', JNum (Fin 33)), (''y'', JStr [])],
                [(''x'', JNum (Fin 10)), (''y'', JNull)],
                [(''x'', JStr []), (''y'', JStr ''-'')]]"
  have x: "band_fraction ?rows ''x'' 32 lit_35_9 = 1 / 2"
    by code_simp
  have y: "filter (parses ''y'') (sampled ?rows) = []"
    by code_simp
  from score_is_band_fraction [of ?rows "''x''" 32 lit_35_9] x
  have 1: "scoreKeyInRange ?rows ''x'' 32 lit_35_9 = 1 / 2"
    by presburger
  from score_is_band_fraction [of ?rows "''y''" 32 lit_35_9] y
  have 2: "scoreKeyInRange ?rows ''y'' 32 lit_35_9 = 0"
    by blast
  show ?thesis using 1 2 y by blast
qed

lemma is_substring_longer: "is_substring (a @ b) s \<Longrightarrow> is_substring a s"
proof -
  assume "is_substring (a @ b) s"
  then obtain pre suf where "s = pre @ (a @ b) @ suf"
    unfolding is_substring_def by blast
  then have "s = pre @ a @ (b @ suf)" by simp
  then show ?thesis unfolding is_substring_def by blast
qed

lemma nameLat_set:
  "set (nameLat keys) =
     {k \<in> set keys. is_substring ''lat'' (toLowerCase k) \<and> \<not> is_substring ''latrine'' (toLowerCase k)}"
  using is_substring_longer [of "''lat''" "''itude''"]
  by (auto simp: nameLat_def ci_test_def includes_iff)

lemma nameLng_set:
  "set (nameLng keys) =
     {k \<in> set keys. is_substring ''lon'' (toLowerCase k) \<or> is_substring ''lng'' (toLowerCase k)}"
  using is_substring_longer [of "''lon''" "''gitude''"]
  by (auto simp: nameLng_def ci_test_def includes_iff)

text \<open>
  The selection that \<^verbatim>\<open>inferLatLngKeys\<close> performs. For every non-empty row set, with
  the columns of its first row: the latitude column is the best-scoring name-matched
  candidate (a name that contains lat but not latrine, ignoring case) when that
  candidate's latitude score is at least 0.25, else the best-scoring column overall when
  its latitude score is at least 0.65 and its name is not empty, else none. The longitude
  column is chosen from the names that contain lon or lng and the longitude scores; its
  name-matched choice leaves no column out, and its overall choice leaves out the column
  \<^verbatim>\<open>bestLat\<close>, the best-scoring column overall for latitude when that scores at
  least 0.65, and no other. Among equal scores the first column wins.
\<close>

lemma inferLatLngKeys_selection:
  "latKey (inferLatLngKeys (r0 # rs))
     = choose_axis (latBand (r0 # rs)) (nameLat (map fst r0)) (map fst r0)
   \<and> lngKey (inferLatLngKeys (r0 # rs))
     = choose_axis (lngBand (r0 # rs)) (nameLng (map fst r0))
         (filter (\<lambda>k. Some k \<noteq> overall_best (latBand (r0 # rs)) (map fst r0)) (map fst r0))
   \<and> set (nameLat keys) =
       {k \<in> set keys. is_substring ''lat'' (toLowerCase k) \<and> \<not> is_substring ''latrine'' (toLowerCase k)}
   \<and> set (nameLng keys) =
       {k \<in> set keys. is_substring ''lon'' (toLowerCase k) \<or> is_substring ''lng'' (toLowerCase k)}
   \<and> latBand (r0 # rs) k = scoreKeyInRange (r0 # rs) k 32 lit_35_9
   \<and> lngBand (r0 # rs) k = scoreKeyInRange (r0 # rs) k 34 lit_37_9"
  using infer_lat [of r0 rs] infer_lng [of r0 rs] nameLat_set [of keys] nameLng_set [of keys]
  by (simp add: latBand_def lngBand_def scoreKeyInRange_fraction)

lemma inferLatLngKeys_selection_example:
  "latKey (inferLatLngKeys
      [[(''PCode'', JStr ''a''), (''Y'', JNum (Fin 34)), (''Latitude'', JNum (Fin (67 / 2))),
        (''Longitude'', JNum (Fin (71 / 2))), (''Number of Latrines'', JNum (Fin 33))]])
     = Some ''Latitude''
   \<and> lngKey (inferLatLngKeys
      [[(''PCode'', JStr ''a''), (''Y'', JNum (Fin 34)), (''Latitude'', JNum (Fin (67 / 2))),
        (''Longitude'', JNum (Fin (71 / 2))), (''Number of Latrines'', JNum (Fin 33))]])
     = Some ''Longitude''"
proof -
  let ?r0 = "[(''PCode'', JStr ''a''), (''Y'', JNum (Fin 34)), (''Latitude'', JNum (Fin (67 / 2))),
        (''Longitude'', JNum (Fin (71 / 2))), (''Number of Latrines'', JNum (Fin 33))]"
  have a: "choose_axis (latBand (?r0 # [])) (nameLat (map fst ?r0)) (map fst ?r0) = Some ''Latitude''"
    by code_simp
  have b: "choose_axis (lngBand (?r0 # [])) (nameLng (map fst ?r0))
         (filter (\<lambda>k. Some k \<noteq> overall_best (latBand (?r0 # [])) (map fst ?r0)) (map fst ?r0))
           = Some ''Longitude''"
    by code_simp
  from inferLatLngKeys_selection [of ?r0 "[]"]
  have "latKey (inferLatLngKeys [?r0])
          = choose_axis (latBand (?r0 # [])) (nameLat (map fst ?r0)) (map fst ?r0)"
    and "lngKey (inferLatLngKeys [?r0])
          = choose_axis (lngBand (?r0 # [])) (nameLng (map fst ?r0))
             (filter (\<lambda>k. Some k \<noteq> overall_best (latBand (?r0 # [])) (map fst ?r0)) (map fst ?r0))"
    by blast+
  then show ?thesis
    by (simp only: a b)
qed

text \<open>
  C1. The claim says that the longitude column is chosen with the column already chosen
  for latitude left out. The code leaves a column out only in the overall longitude
  search, and the column it leaves out there is \<^verbatim>\<open>bestLat\<close>, not the latitude column.
  So a single column whose name matches both patterns and whose values lie in both bands
  is chosen for latitude and again for longitude; a name-matched latitude column is
  chosen again for longitude by the overall search when another column ties it for
  latitude; and a column that is not the latitude column, and is the only one in the
  longitude band, is left out, so that no longitude column is found.
\<close>

theorem inferLatLngKeys_same_column:
  "latKey (inferLatLngKeys [[(''PCode'', JStr ''a''), (''lat_lon'', JNum (Fin 35))]]) = Some ''lat_lon''
   \<and> lngKey (inferLatLngKeys [[(''PCode'', JStr ''a''), (''lat_lon'', JNum (Fin 35))]]) = Some ''lat_lon''
   \<and> latKey (inferLatLngKeys [[(''A'', JNum (Fin 35)), (''Latitude'', JNum (Fin 35))]]) = Some ''Latitude''
   \<and> lngKey (inferLatLngKeys [[(''A'', JNum (Fin 35)), (''Latitude'', JNum (Fin 35))]]) = Some ''Latitude''
   \<and> latKey (inferLatLngKeys
         [[(''PCode'', JStr ''a''), (''X'', JNum (Fin 35)), (''Latitude'', JNum (Fin 33))]]) = Some ''Latitude''
   \<and> lngKey (inferLatLngKeys
         [[(''PCode'', JStr ''a''), (''X'', JNum (Fin 35)), (''Latitude'', JNum (Fin 33))]]) = None
   \<and> scoreKeyInRange
         [[(''PCode'', JStr ''a''), (''X'', JNum (Fin 35)), (''Latitude'', JNum (Fin 33))]] ''X'' 34 lit_37_9 = 1"
  by code_simp

text \<open>
  C3. The claim says that every unparseable input yields not-a-number. A text without
  digits, signs or dots is cleaned to the empty string, which \<^verbatim>\<open>Number\<close> reads as 0:
  the cell \<^verbatim>\<open>N/A\<close> parses to the finite number 0, counts as a parsed sample, and a
  record with such cells in the coordinate columns is indexed at (0, 0).
\<close>

theorem parseCoordinate_text_is_zero:
  "parseCoordinate (JStr ''N/A'') = Fin 0
   \<and> parseCoordinate (JStr []) = NaN
   \<and> parses ''Latitude'' [(''PCode'', JStr ''b''), (''Latitude'', JStr ''N/A''), (''Longitude'', JStr ''N/A'')]
   \<and> mp (buildCoordsMapFromRows
        [[(''PCode'', JStr ''a''), (''Latitude'', JNum (Fin (67 / 2))), (''Longitude'', JNum (Fin (71 / 2)))],
         [(''PCode'', JStr ''b''), (''Latitude'', JStr ''N/A''), (''Longitude'', JStr ''N/A'')]]) ''b''
      = Some (0, 0)"
  by code_simp




section \<open>Properties of the filter engine\<close>

lemma keepRow_passes: "keepRow f (toLowerCase (trim (f_q f))) r = passes f r"
  by (auto simp: keepRow_def passes_def matches_criterion_def includes_iff)

lemma applyFilters_filter: "applyFilters f rows = filter (passes f) rows"
  by (simp add: applyFilters_def keepRow_passes cong: filter_cong)

text \<open>
  C5. For every record list and every criteria set, \<^verbatim>\<open>applyFilters\<close> returns a
  subsequence of the records in their original order that holds exactly the records
  passing the conjunction of the criteria; the default criteria return the list unchanged.
\<close>

theorem applyFilters_contract:
  "applyFilters f rows = filter (passes f) rows
   \<and> subseq (applyFilters f rows) rows
   \<and> set (applyFilters f rows) = {r \<in> set rows. passes f r}
   \<and> applyFilters defaultFilters rows = rows"
proof -
  have dflt: "passes defaultFilters r" for r
    by (simp add: passes_def defaultFilters_def matches_criterion_def trim_def toLowerCase_def)
  show ?thesis
    by (simp add: applyFilters_filter dflt)
qed

theorem applyFilters_contract_witness:
  "applyFilters (defaultFilters\<lparr> f_qc := ''Any issue'', f_q := '' Sa '' \<rparr>)
     [normalize [(''PCode'', JStr ''SA-1''), (''QC - Any issue'', JStr ''Yes'')],
      normalize [(''PCode'', JStr ''SA-2''), (''QC - Any issue'', JStr ''No'')],
      normalize [(''PCode'', JStr ''XB-3''), (''QC - Any issue'', JStr ''Yes'')]]
   = [normalize [(''PCode'', JStr ''SA-1''), (''QC - Any issue'', JStr ''Yes'')]]"
  using applyFilters_contract [of "defaultFilters\<lparr> f_qc := ''Any issue'', f_q := '' Sa '' \<rparr>"
     "[normalize [(''PCode'', JStr ''SA-1''), (''QC - Any issue'', JStr ''Yes'')],
      normalize [(''PCode'', JStr ''SA-2''), (''QC - Any issue'', JStr ''No'')],
      normalize [(''PCode'', JStr ''XB-3''), (''QC - Any issue'', JStr ''Yes'')]]"]
  by (simp add: passes_def matches_criterion_def defaultFilters_def normalize_def Let_def
      text_evals join_def includes_iff [symmetric] QC_RULES_def truthy_def em_dash_def)

section \<open>Properties of the number to string conversion\<close>

lemma digit_char_is_digit: "0 \<le> d \<Longrightarrow> d < 10 \<Longrightarrow> is_digit (digit_char d)"
  by (simp add: is_digit_def digit_char_def)

lemma dec_int_small: "n < 10 \<Longrightarrow> dec_int n = [digit_char n]"
  by (subst dec_int.simps) simp

lemma dec_int_large: "\<not> n < 10 \<Longrightarrow> dec_int n = dec_int (n div 10) @ [digit_char (n mod 10)]"
  by (subst dec_int.simps) simp

lemma dec_int_digits: "0 \<le> m \<Longrightarrow> dec_int m \<noteq> [] \<and> (\<forall>c \<in> set (dec_int m). is_digit c)"
proof (induction m rule: dec_int.induct)
  case (1 n)
  show ?case
  proof (cases "n < 10")
    case True
    with "1.prems" show ?thesis
      by (simp add: dec_int_small digit_char_is_digit)
  next
    case False
    then have "0 \<le> n div 10" by simp
    with "1.IH" False have "dec_int (n div 10) \<noteq> [] \<and> (\<forall>c \<in> set (dec_int (n div 10)). is_digit c)"
      by simp
    moreover have "is_digit (digit_char (n mod 10))"
      by (rule digit_char_is_digit) simp_all
    ultimately show ?thesis
      using False by (simp add: dec_int_large)
  qed
qed

lemma digit_char_one: "0 \<le> m \<Longrightarrow> m < 10 \<Longrightarrow> digit_char m = CHR ''1'' \<Longrightarrow> m = 1"
proof -
  assume "0 \<le> m" "m < 10" and d: "digit_char m = CHR ''1''"
  then have "m = 0 \<or> m = 1 \<or> m = 2 \<or> m = 3 \<or> m = 4 \<or> m = 5 \<or> m = 6 \<or> m = 7 \<or> m = 8 \<or> m = 9"
    by arith
  with d show "m = 1"
    by (elim disjE) (simp_all add: digit_char_def char_evals)
qed

lemma dec_int_one:
  assumes "0 \<le> m" "dec_int m = ''1''"
  shows "m = 1"
proof (cases "m < 10")
  case True
  with assms have "digit_char m = CHR ''1''"
    by (simp add: dec_int_small)
  with True assms(1) show ?thesis by (rule_tac digit_char_one)
next
  case False
  then have "0 \<le> m div 10" by simp
  then have "dec_int (m div 10) \<noteq> []" using dec_int_digits by blast
  then obtain c cs where "dec_int (m div 10) = c # cs"
    by (cases "dec_int (m div 10)") auto
  then have "dec_int m = c # cs @ [digit_char (m mod 10)]"
    using False by (simp add: dec_int_large)
  with assms(2) show ?thesis by simp
qed


lemma format_digits_chars:
  assumes "0 \<le> s"
  shows "\<forall>c \<in> set (format_digits s k n). is_digit c \<or> c \<in> set ''.e+-''"
proof -
  have ds: "\<forall>c \<in> set (dec_int s). is_digit c"
    using assms dec_int_digits by blast
  have ex: "\<forall>c \<in> set (dec_int \<bar>n - 1\<bar>). is_digit c"
    using dec_int_digits [of "\<bar>n - 1\<bar>"] by simp
  have z: "is_digit CHR ''0''" by (simp add: is_digit_def)
  show ?thesis
    using ds ex z
    by (auto simp: format_digits_def Let_def dest: in_set_takeD in_set_dropD)
qed

lemma format_digits_one:
  assumes "0 \<le> s" "format_digits s k n = ''1''"
  shows "s = 1 \<and> n = int k"
proof -
  have ne: "dec_int s \<noteq> []" using assms(1) dec_int_digits by blast
  consider (A) "int k \<le> n \<and> n \<le> 21"
    | (B) "\<not> (int k \<le> n \<and> n \<le> 21)" "0 < n \<and> n \<le> 21"
    | (C) "\<not> (int k \<le> n \<and> n \<le> 21)" "\<not> (0 < n \<and> n \<le> 21)" "- 6 < n \<and> n \<le> 0"
    | (D) "\<not> (int k \<le> n \<and> n \<le> 21)" "\<not> (0 < n \<and> n \<le> 21)" "\<not> (- 6 < n \<and> n \<le> 0)"
    by blast
  then show ?thesis
  proof cases
    case A
    with assms(2) have eq: "dec_int s @ replicate (nat (n - int k)) CHR ''0'' = ''1''"
      by (simp add: format_digits_def Let_def)
    then have "dec_int s = ''1'' \<and> replicate (nat (n - int k)) CHR ''0'' = []"
      using ne by (cases "dec_int s") (simp_all add: append_eq_Cons_conv)
    then have "dec_int s = ''1''" and "nat (n - int k) = 0" by simp_all
    with A assms(1) show ?thesis using dec_int_one by auto
  next
    case B
    then have "CHR ''.'' \<in> set (format_digits s k n)"
      by (auto simp: format_digits_def Let_def)
    with assms(2) show ?thesis by simp
  next
    case C
    with assms(2) have "''0.'' @ replicate (nat (- n)) CHR ''0'' @ dec_int s = ''1''"
      by (simp add: format_digits_def Let_def)
    then show ?thesis by simp
  next
    case D
    then have "CHR ''e'' \<in> set (format_digits s k n)"
      by (auto simp: format_digits_def Let_def)
    with assms(2) show ?thesis by simp
  qed
qed

lemma filter_ConsD: "filter P xs = c # cs \<Longrightarrow> P c"
  by (metis Cons_eq_filterD)

lemma find_digits_result:
  "find_digits x n0 fuel k = (s, k', n) \<Longrightarrow>
     10 ^ (k' - 1) \<le> s \<and> k \<le> k' \<and> (digits_ok x k' (s, n) \<or> k' = k + fuel)"
proof (induction fuel arbitrary: k)
  case 0
  show ?case
  proof (cases "filter (digits_in_range k) (digit_candidates x n0 k)")
    case Nil
    with 0 show ?thesis by auto
  next
    case (Cons c cs)
    then have "digits_in_range k c" by (rule filter_ConsD)
    with 0 Cons show ?thesis by (auto simp: digits_in_range_def)
  qed
next
  case (Suc fuel)
  show ?case
  proof (cases "filter (digits_ok x k) (digit_candidates x n0 k)")
    case Nil
    with Suc.prems have "find_digits x n0 fuel (Suc k) = (s, k', n)" by simp
    from Suc.IH [OF this] show ?thesis by auto
  next
    case (Cons c cs)
    then have "digits_ok x k c" by (rule filter_ConsD)
    with Suc.prems Cons show ?thesis by (auto simp: digits_ok_def digits_in_range_def)
  qed
qed

lemma trim_id: "\<forall>c \<in> set s. \<not> is_ws c \<Longrightarrow> trim s = s"
proof (cases s)
  case Nil
  then show ?thesis by (simp add: trim_def)
next
  case (Cons c cs)
  assume a: "\<forall>c \<in> set s. \<not> is_ws c"
  have 1: "dropWhile is_ws s = s"
    using a Cons by simp
  have "rev s \<noteq> []" using Cons by simp
  moreover have "hd (rev s) \<in> set s"
    using hd_in_set [of "rev s"] Cons by simp
  ultimately have 2: "dropWhile is_ws (rev s) = rev s"
    using a by (simp add: dropWhile_eq_self_iff)
  show ?thesis by (simp add: trim_def 1 2)
qed

lemma num_char_plain:
  assumes "is_digit c \<or> c \<in> set ''.e+-''"
  shows "\<not> is_ws c \<and> lower_char c = c"
proof -
  from assms consider "is_digit c" | "c = CHR ''.''" | "c = CHR ''e''" | "c = CHR ''+''" | "c = CHR ''-''"
    by auto
  then show ?thesis
    by cases (auto simp: is_digit_def is_ws_def lower_char_def)
qed

lemma num_text_plain:
  assumes "\<forall>c \<in> set s. is_digit c \<or> c \<in> set ''.e+-''"
  shows "toLowerCase (trim s) = s"
proof -
  have "trim s = s" using assms num_char_plain by (intro trim_id) blast
  moreover have "map lower_char s = s" using assms num_char_plain by (intro map_idI) blast
  ultimately show ?thesis by (simp add: toLowerCase_def)
qed

lemma int_digits_2_1: "int_digits 2 1 = Suc 0"
  by (simp add: int_digits.simps [of 2 1] int_digits.simps [of 2 0])

lemma ilog_2_1: "ilog 2 1 = 0"
  by (simp add: ilog_def int_digits_2_1)

lemma round_double_one: "round_double 1 = Fin 1"
  by (simp add: round_double_def ilog_2_1 round_half_even_def Let_def)

lemma positive_toString_chars:
  "\<forall>c \<in> set (positive_toString x). is_digit c \<or> c \<in> set ''.e+-''"
proof -
  obtain s k n where f: "find_digits x (ilog 10 x + 1) 16 1 = (s, k, n)"
    by (cases "find_digits x (ilog 10 x + 1) 16 1") auto
  from find_digits_result [OF f] have "0 \<le> s"
    by (meson order_trans zero_le_numeral zero_le_power)
  then have "\<forall>c \<in> set (format_digits s k n). is_digit c \<or> c \<in> set ''.e+-''"
    by (rule format_digits_chars)
  then show ?thesis
    unfolding positive_toString_def f by (simp only: prod.case)
qed

lemma positive_toString_one:
  assumes "positive_toString x = ''1''"
  shows "x = 1"
proof -
  obtain s k n where f: "find_digits x (ilog 10 x + 1) 16 1 = (s, k, n)"
    by (cases "find_digits x (ilog 10 x + 1) 16 1") auto
  from find_digits_result [OF f]
  have r: "10 ^ (k - 1) \<le> s" "1 \<le> k" "digits_ok x k (s, n) \<or> k = 1 + 16"
    by auto
  have s0: "0 \<le> s"
    using r(1) by (meson order_trans zero_le_numeral zero_le_power)
  from assms have "format_digits s k n = ''1''"
    unfolding positive_toString_def f by (simp only: prod.case)
  from format_digits_one [OF s0 this] have s1: "s = 1" and nk: "n = int k" by auto
  have "k = 1"
  proof (rule ccontr)
    assume "k \<noteq> 1"
    with r(2) have "2 \<le> k" by simp
    then have "(10::int) ^ 1 \<le> 10 ^ (k - 1)"
      by (intro power_increasing) auto
    with r(1) s1 show False by simp
  qed
  with r(3) have "digits_ok x 1 (s, n)" by simp
  then have "round_double 1 = Fin x"
    using s1 nk \<open>k = 1\<close> by (simp add: digits_ok_def)
  then show ?thesis by (simp add: round_double_one)
qed

lemma Number_toString_text:
  assumes "toLowerCase (trim (Number_toString n)) \<in> {''yes'', ''true'', ''1''}"
  shows "n = Fin 1"
proof (cases n)
  case NaN
  with assms show ?thesis by (simp add: text_evals)
next
  case PInf
  with assms show ?thesis by (simp add: text_evals)
next
  case NInf
  with assms show ?thesis by (simp add: text_evals)
next
  case (Fin x)
  consider "x = 0" | "x < 0" | "0 < x" by linarith
  then show ?thesis
  proof cases
    case 1
    with assms Fin show ?thesis by (simp add: text_evals)
  next
    case 2
    let ?t = "''-'' @ positive_toString (- x)"
    have "\<forall>c \<in> set ?t. is_digit c \<or> c \<in> set ''.e+-''"
      using positive_toString_chars [of "- x"] by simp
    then have "toLowerCase (trim ?t) = ?t" by (rule num_text_plain)
    with assms Fin 2 show ?thesis by simp
  next
    case 3
    have "toLowerCase (trim (positive_toString x)) = positive_toString x"
      using positive_toString_chars [of x] by (rule num_text_plain)
    with assms Fin 3 have "positive_toString x \<in> {''yes'', ''true'', ''1''}" by simp
    moreover have "CHR ''y'' \<notin> set (positive_toString x)" "CHR ''t'' \<notin> set (positive_toString x)"
      using positive_toString_chars [of x] by (auto simp: is_digit_def)
    ultimately have "positive_toString x = ''1''" by auto
    then show ?thesis using Fin by (simp add: positive_toString_one)
  qed
qed

section \<open>Properties of the record normalizer\<close>

lemma truthy_flagged: "truthy v = flagged v"
proof (cases v)
  case JUndef
  then show ?thesis by (simp add: truthy_def flagged_def text_evals)
next
  case JNull
  then show ?thesis by (simp add: truthy_def flagged_def text_evals)
next
  case (JBool b)
  then show ?thesis by (cases b) (simp_all add: truthy_def flagged_def text_evals)
next
  case (JNum n)
  show ?thesis
  proof (cases "n = Fin 1")
    case True
    with JNum show ?thesis by (simp add: truthy_def flagged_def)
  next
    case False
    then have "toLowerCase (trim (Number_toString n)) \<notin> {''yes'', ''true'', ''1''}"
      using Number_toString_text by blast
    with False JNum show ?thesis
      by (simp add: truthy_def flagged_def normText_def is_nullish_def)
  qed
next
  case (JStr s)
  then show ?thesis
    by (auto simp: truthy_def flagged_def truthy_texts_def normText_def is_nullish_def)
qed

lemma qcFlagsLoop_filter:
  "qcFlagsLoop obj rules acc = acc @ map label (filter (\<lambda>rule. flagged (get obj (col rule))) rules)"
  by (induction rules arbitrary: acc) (simp_all add: truthy_flagged)

lemma qcFlags_filter:
  "d_qcFlags (normalize r) = map label (filter (\<lambda>rule. flagged (get r (col rule))) QC_RULES)"
  by (simp add: normalize_def Let_def qcFlagsLoop_filter)

text \<open>
  C6, as the code has it. For every raw row, \<^verbatim>\<open>__qcFlags\<close> is the sequence, in the
  order of the 14 rules, of the labels of the rules whose cell is boolean true, the number
  1, or a text that after trimming equals yes, true or 1 apart from case. A row whose
  rule cells are all "No", false or 0 has no flags; a row whose only flagged rule cell is
  "QC - Totals mismatch", holding "Yes", has exactly that rule's label.
\<close>

theorem qcFlags_contract:
  "d_qcFlags (normalize r) = map label (filter (\<lambda>rule. flagged (get r (col rule))) QC_RULES)
   \<and> length QC_RULES = 14
   \<and> ((\<forall>rule \<in> set QC_RULES. get r (col rule) \<in> {JStr ''No'', JBool False, JNum (Fin 0)})
        \<longrightarrow> d_qcFlags (normalize r) = [])
   \<and> (get r ''QC - Totals mismatch'' = JStr ''Yes''
        \<and> (\<forall>rule \<in> set QC_RULES. col rule \<noteq> ''QC - Totals mismatch'' \<longrightarrow> \<not> flagged (get r (col rule)))
        \<longrightarrow> d_qcFlags (normalize r) = [''Totals mismatch (structures/HH/IND vs components)''])"
proof -
  have off: "\<not> flagged v" if "v \<in> {JStr ''No'', JBool False, JNum (Fin 0)}" for v
    using that by (auto simp: flagged_def truthy_texts_def text_evals)
  have a: "(\<forall>rule \<in> set QC_RULES. get r (col rule) \<in> {JStr ''No'', JBool False, JNum (Fin 0)})
        \<longrightarrow> d_qcFlags (normalize r) = []"
    using off by (auto simp: qcFlags_filter filter_empty_conv)
  have yes: "flagged (JStr ''Yes'')"
    by (simp add: flagged_def truthy_texts_def text_evals)
  have b: "get r ''QC - Totals mismatch'' = JStr ''Yes''
        \<and> (\<forall>rule \<in> set QC_RULES. col rule \<noteq> ''QC - Totals mismatch'' \<longrightarrow> \<not> flagged (get r (col rule)))
        \<longrightarrow> d_qcFlags (normalize r) = [''Totals mismatch (structures/HH/IND vs components)'']"
    using yes by (simp add: qcFlags_filter QC_RULES_def)
  show ?thesis
    using a b by (simp add: qcFlags_filter) (simp add: QC_RULES_def)
qed

theorem qcFlags_contract_witness:
  "d_qcFlags (normalize [(''QC - Totals mismatch'', JStr ''Yes''), (''QC - Latrines > HH'', JStr ''No'')])
     = [''Totals mismatch (structures/HH/IND vs components)'']
   \<and> d_qcFlags (normalize (map (\<lambda>rule. (col rule, JNum (Fin 0))) QC_RULES)) = []"
proof -
  let ?r = "[(''QC - Totals mismatch'', JStr ''Yes''), (''QC - Latrines > HH'', JStr ''No'')]"
  let ?z = "map (\<lambda>rule. (col rule, JNum (Fin 0))) QC_RULES"
  have 1: "get ?r ''QC - Totals mismatch'' = JStr ''Yes''"
    by (simp add: get_def)
  have 2: "\<forall>rule \<in> set QC_RULES. col rule \<noteq> ''QC - Totals mismatch'' \<longrightarrow> \<not> flagged (get ?r (col rule))"
    by (simp add: QC_RULES_def get_def flagged_def truthy_texts_def text_evals)
  have 3: "\<forall>rule \<in> set QC_RULES. get ?z (col rule) \<in> {JStr ''No'', JBool False, JNum (Fin 0)}"
    by (simp add: QC_RULES_def get_def)
  from qcFlags_contract [of ?r] 1 2
  have a: "d_qcFlags (normalize ?r) = [''Totals mismatch (structures/HH/IND vs components)'']"
    by blast
  from qcFlags_contract [of ?z] 3
  have b: "d_qcFlags (normalize ?z) = []"
    by blast
  show ?thesis using a b by blast
qed

text \<open>
  The claim as stated does not trim: for the cell \<^verbatim>\<open>" yes"\<close> it gives no flag, the
  code gives one.
\<close>

theorem qcFlags_untrimmed_text:
  "d_qcFlags (normalize [(''QC - Totals mismatch'', JStr '' yes'')])
     = [''Totals mismatch (structures/HH/IND vs components)'']
   \<and> map label (filter (\<lambda>rule. stated_flag (get [(''QC - Totals mismatch'', JStr '' yes'')] (col rule)))
        QC_RULES) = []"
  by (simp add: normalize_def Let_def QC_RULES_def truthy_def stated_flag_def truthy_texts_def
      text_evals)

text \<open>
  C7. For every raw row: \<^verbatim>\<open>__assessed\<close> holds iff the text of the phone-call-status
  cell is non-empty after trimming; \<^verbatim>\<open>__siteStatus\<close> is the trimmed Site Status when
  that is non-empty, else "Not recorded" when assessed, else "Not assessed";
  \<^verbatim>\<open>__phoneStatus\<close> is the trimmed phone-call-status when assessed and "Not assessed"
  otherwise. The text of a string cell is the string trimmed, of an empty cell the empty
  string.
\<close>

theorem normalize_status:
  "d_assessed (normalize r) = (normText (get r ''Phone call status'') \<noteq> [])
   \<and> d_siteStatus (normalize r) =
       (if normText (get r ''Site Status'') \<noteq> [] then normText (get r ''Site Status'')
        else if d_assessed (normalize r) then ''Not recorded'' else ''Not assessed'')
   \<and> d_phoneStatus (normalize r) =
       (if d_assessed (normalize r) then normText (get r ''Phone call status'') else ''Not assessed'')
   \<and> normText (JStr s) = trim s \<and> normText JNull = [] \<and> normText JUndef = []"
  by (simp add: normalize_def Let_def normText_def is_nullish_def)

theorem normalize_status_witness:
  "d_assessed (normalize [(''Phone call status'', JStr '' Answer ''), (''Site Status'', JStr '' '')])
   \<and> d_siteStatus (normalize [(''Phone call status'', JStr '' Answer ''), (''Site Status'', JStr '' '')])
       = ''Not recorded''
   \<and> d_phoneStatus (normalize [(''Phone call status'', JStr '' Answer ''), (''Site Status'', JStr '' '')])
       = ''Answer''
   \<and> d_siteStatus (normalize [(''Phone call status'', JStr []), (''Site Status'', JStr [])])
       = ''Not assessed''"
  using normalize_status [of "[(''Phone call status'', JStr '' Answer ''), (''Site Status'', JStr '' '')]" "[]"]
    normalize_status [of "[(''Phone call status'', JStr []), (''Site Status'', JStr [])]" "[]"]
  by (simp add: text_evals)

text \<open>
  C8. For every raw row, \<^verbatim>\<open>__qcAny\<close> is "Yes" iff the trimmed text of the
  "QC - Any issue" cell is exactly "Yes"; every other value, among them the spellings
  that \<^verbatim>\<open>truthy\<close> accepts for the rule columns, gives "No", and such a record is
  left out by the "Any issue" criterion whatever its \<^verbatim>\<open>__qcFlags\<close>.
\<close>

theorem qcAny_case_sensitive:
  "(d_qcAny (normalize r) = ''Yes'') = (normText (get r ''QC - Any issue'') = ''Yes'')
   \<and> (normText (get r ''QC - Any issue'') \<noteq> ''Yes'' \<longrightarrow> d_qcAny (normalize r) = ''No'')
   \<and> (\<forall>v \<in> set [JStr ''yes'', JStr ''TRUE'', JStr ''1'', JStr ''true'', JBool True, JStr []].
         truthy v = (v \<noteq> JStr []) \<and> d_qcAny (normalize [(''QC - Any issue'', v)]) = ''No'')
   \<and> (f_qc f = ''Any issue'' \<and> normText (get r ''QC - Any issue'') \<noteq> ''Yes''
        \<longrightarrow> normalize r \<notin> set (applyFilters f recs))"
proof -
  have a: "(d_qcAny (normalize r) = ''Yes'') = (normText (get r ''QC - Any issue'') = ''Yes'')"
    by (simp add: normalize_def Let_def)
  have b: "normText (get r ''QC - Any issue'') \<noteq> ''Yes'' \<longrightarrow> d_qcAny (normalize r) = ''No''"
    by (simp add: normalize_def Let_def)
  have c: "\<forall>v \<in> set [JStr ''yes'', JStr ''TRUE'', JStr ''1'', JStr ''true'', JBool True, JStr []].
         truthy v = (v \<noteq> JStr []) \<and> d_qcAny (normalize [(''QC - Any issue'', v)]) = ''No''"
    by (simp add: normalize_def Let_def text_evals truthy_def)
  have d: "f_qc f = ''Any issue'' \<and> normText (get r ''QC - Any issue'') \<noteq> ''Yes''
        \<longrightarrow> normalize r \<notin> set (applyFilters f recs)"
    using a by (auto simp: applyFilters_filter passes_def)
  show ?thesis using a b c d by blast
qed

theorem qcAny_case_sensitive_witness:
  "d_qcAny (normalize [(''QC - Any issue'', JStr ''yes''), (''QC - Totals mismatch'', JStr ''Yes'')]) = ''No''
   \<and> d_qcFlags (normalize [(''QC - Any issue'', JStr ''yes''), (''QC - Totals mismatch'', JStr ''Yes'')])
       = [''Totals mismatch (structures/HH/IND vs components)'']
   \<and> applyFilters (defaultFilters\<lparr> f_qc := ''Any issue'' \<rparr>)
       [normalize [(''QC - Any issue'', JStr ''yes''), (''QC - Totals mismatch'', JStr ''Yes'')]] = []"
proof -
  let ?r = "[(''QC - Any issue'', JStr ''yes''), (''QC - Totals mismatch'', JStr ''Yes'')]"
  let ?f = "defaultFilters\<lparr> f_qc := ''Any issue'' \<rparr>"
  have n: "normText (get ?r ''QC - Any issue'') \<noteq> ''Yes''"
    by (simp add: text_evals)
  have q: "f_qc ?f = ''Any issue''" by (simp add: defaultFilters_def)
  from qcAny_case_sensitive [of ?r ?f "[normalize ?r]"] n q
  have 1: "d_qcAny (normalize ?r) = ''No''" and 2: "normalize ?r \<notin> set (applyFilters ?f [normalize ?r])"
    by blast+
  have 3: "applyFilters ?f [normalize ?r] = []"
    using 2 by (simp add: applyFilters_def Let_def split: if_splits)
  have 4: "d_qcFlags (normalize ?r) = [''Totals mismatch (structures/HH/IND vs components)'']"
    by (simp add: normalize_def Let_def text_evals truthy_def QC_RULES_def)
  show ?thesis using 1 3 4 by simp
qed

section \<open>Properties of the CSV export\<close>






section \<open>Properties of the shareable link\<close>


































end
